theory Spec2Isabelle
  imports Main "HOL-Library.Sublist"
begin

section \<open>Data model (src/App.tsx, lines 27-35)\<close>

text \<open>
  JavaScript strings are modelled as \<^typ>\<open>string\<close>; text outside ASCII (the two CSV
  labels and the alert message) is written as its UTF-8 bytes.
\<close>

record SerpItem =
  link :: string
  title :: string
  snippet :: string

datatype status = Loading | Ok | Ng | Error

text \<open>The optional fields \<open>rank?\<close>, \<open>domain?\<close>, \<open>serp?\<close>, \<open>error?\<close> are options.\<close>

record Result =
  keyword :: string
  status :: status
  rank :: "nat option"
  domain :: "string option"
  serp :: "SerpItem list option"
  error :: "string option"

section \<open>Platform functions\<close>

text \<open>
  The browser's \<open>URL\<close> constructor is not code of the repository: it is a parameter.
  \<open>URL u = Some h\<close> when \<open>new URL(u)\<close> succeeds and \<open>h\<close> is its \<open>hostname\<close>;
  \<open>URL u = None\<close> when the constructor throws.
\<close>

type_synonym url_parser = "string \<Rightarrow> string option"

text \<open>
  \<open>s.replace(/^lit/, rep)\<close> for a literal pattern \<open>lit\<close> anchored at the start of the
  string, without the \<open>g\<close> flag: at most one occurrence, at position 0, is replaced.
\<close>

definition replace_at_start :: "string \<Rightarrow> string \<Rightarrow> string \<Rightarrow> string" where
  "replace_at_start lit rep s = (if prefix lit s then rep @ drop (length lit) s else s)"

definition endsWith :: "string \<Rightarrow> string \<Rightarrow> bool" where
  "endsWith s t = suffix t s"

text \<open>\<open>Array.prototype.join\<close>.\<close>

fun join :: "string \<Rightarrow> string list \<Rightarrow> string" where
  "join sep [] = []"
| "join sep [x] = x"
| "join sep (x # y # ys) = x @ sep @ join sep (y # ys)"

text \<open>A number in a template literal or in \<open>join\<close>: its decimal digits.\<close>

definition digit :: "nat \<Rightarrow> char" where
  "digit d = ''0123456789'' ! d"

function show_nat :: "nat \<Rightarrow> string" where
  "show_nat n = (if n < 10 then [digit n] else show_nat (n div 10) @ [digit (n mod 10)])"
  by pat_completeness auto
termination
  by (relation "measure id") auto

definition show_int :: "int \<Rightarrow> string" where
  "show_int k = (if k < 0 then ''-'' @ show_nat (nat (- k)) else show_nat (nat k))"

section \<open>Utilities (lines 40-50)\<close>

definition hostnameOf :: "url_parser \<Rightarrow> string \<Rightarrow> string" where
  "hostnameOf URL url =
     (case URL url of
        Some hostname \<Rightarrow> replace_at_start ''www.'' [] hostname
      | None \<Rightarrow> [])"

definition includesAny :: "string \<Rightarrow> string list \<Rightarrow> bool" where
  "includesAny host patterns =
     list_ex (\<lambda>p. host = p \<or> endsWith host (''.'' @ p)) patterns"

text \<open>
  The memo \<open>qaDomainList\<close> (line 89):
  \<open>qaDomains.split(/[\n,]+/).filter(d => d.trim() !== "")\<close>.
  \<open>split_runs sep cur s\<close> cuts \<open>s\<close> at every maximal run of separator characters;
  \<open>cur\<close> holds the field being read. \<open>String.prototype.trim\<close> is a parameter.
\<close>

function split_runs :: "(char \<Rightarrow> bool) \<Rightarrow> string \<Rightarrow> string \<Rightarrow> string list" where
  "split_runs sep cur [] = [cur]"
| "split_runs sep cur (c # cs) =
     (if sep c then cur # split_runs sep [] (dropWhile sep cs)
      else split_runs sep (cur @ [c]) cs)"
  by pat_completeness auto
termination
  by (relation "measure (\<lambda>(sep, cur, s). length s)")
     (auto simp: le_imp_less_Suc length_dropWhile_le)

definition qaDomainList_of :: "(string \<Rightarrow> string) \<Rightarrow> string \<Rightarrow> string list" where
  "qaDomainList_of trim qaDomains =
     filter (\<lambda>d. trim d \<noteq> [])
       (split_runs (\<lambda>c. c = CHR 0x0A \<or> c = CHR '','') [] qaDomains)"

section \<open>The search API as seen by \<open>handleCheck\<close> (lines 107-114)\<close>

text \<open>
  What the handler observes of one request. Every string that stands for an exception
  is the \<open>message\<close> of the exception the runtime throws there.
\<close>

datatype error_body =
    JsonThrows string
      \<comment> \<open>\<open>response.json()\<close> rejects: the body is not JSON\<close>
  | MemberThrows string
      \<comment> \<open>\<open>errorData.error.message\<close> throws a TypeError: \<open>errorData\<close> is null, or it
          has no \<open>error\<close> member, or that member is null\<close>
  | ErrorMessage "string option"
      \<comment> \<open>\<open>errorData.error.message\<close> evaluates: \<open>Some m\<close> is its text, \<open>None\<close> stands
          for an absent (or otherwise falsy, non-string) member\<close>

datatype ok_body =
    DataThrows string
      \<comment> \<open>\<open>response.json()\<close> rejects, or \<open>data.items\<close> throws because \<open>data\<close> is null\<close>
  | Data "SerpItem list option"
      \<comment> \<open>\<open>data.items\<close>: \<open>None\<close> when the member is absent\<close>

datatype response =
    Rejected string
      \<comment> \<open>\<open>fetch\<close> rejects (transport failure)\<close>
  | NotOk nat error_body
      \<comment> \<open>\<open>response.ok\<close> is false; \<open>response.status\<close> and the body\<close>
  | IsOk ok_body

text \<open>
  \<open>fetch i url\<close> is the answer to the request that iteration \<open>i\<close> of the loop sends
  to \<open>url\<close>. \<open>encodeURIComponent k\<close> is \<open>Inr q\<close>, or \<open>Inl msg\<close> when it throws a
  URIError (a lone surrogate in \<open>k\<close>). Both are parameters.
\<close>

record platform =
  URL_hostname :: url_parser
  encodeURIComponent :: "string \<Rightarrow> string + string"
  fetch :: "nat \<Rightarrow> string \<Rightarrow> response"

section \<open>Component state and effects (lines 75-85)\<close>

text \<open>
  A JavaScript number as \<open>parseInt\<close> gives it, by what a template literal prints for
  it: \<open>NaN\<close>; a whole number of magnitude below \<open>1e21\<close>, printed in decimal digits;
  or a larger one, printed in exponent form, given here by that text.
\<close>

datatype number = NaN | Whole int | Large string

text \<open>
  The values the handler closes over. \<open>searchRank\<close> is what \<open>parseInt\<close> made of the
  number input (10 at the start).
\<close>

record app =
  apiKey :: string
  cx :: string
  searchRank :: number
  keywordList :: "string list"
  qaDomainList :: "string list"
  results :: "Result list"
  isLoading :: bool

text \<open>
  The observable effects of a run, in order. \<open>SetResults rs\<close> is a call of
  \<open>setResults\<close>, with \<open>rs\<close> the value of \<open>results\<close> once the update is applied:
  an updater function receives the value the previous call left.
\<close>

datatype event =
    Alert string
  | SetIsLoading bool
  | SetResults "Result list"
  | Fetch string

definition API_ENDPOINT :: string where
  "API_ENDPOINT = ''https://www.googleapis.com/customsearch/v1''"

definition alert_message :: string where
  "alert_message =
     [CHR 0x41, CHR 0x50, CHR 0x49, CHR 0xE3, CHR 0x82, CHR 0xAD, CHR 0xE3, CHR 0x83,
      CHR 0xBC, CHR 0xE3, CHR 0x81, CHR 0xA8, CHR 0xE6, CHR 0xA4, CHR 0x9C, CHR 0xE7,
      CHR 0xB4, CHR 0xA2, CHR 0xE3, CHR 0x82, CHR 0xA8, CHR 0xE3, CHR 0x83, CHR 0xB3,
      CHR 0xE3, CHR 0x82, CHR 0xB8, CHR 0xE3, CHR 0x83, CHR 0xB3, CHR 0x49, CHR 0x44,
      CHR 0x20, CHR 0x28, CHR 0x63, CHR 0x78, CHR 0x29, CHR 0x20, CHR 0xE3, CHR 0x82,
      CHR 0x92, CHR 0xE5, CHR 0x85, CHR 0xA5, CHR 0xE5, CHR 0x8A, CHR 0x9B, CHR 0xE3,
      CHR 0x81, CHR 0x97, CHR 0xE3, CHR 0x81, CHR 0xA6, CHR 0xE3, CHR 0x81, CHR 0x8F,
      CHR 0xE3, CHR 0x81, CHR 0xA0, CHR 0xE3, CHR 0x81, CHR 0x95, CHR 0xE3, CHR 0x81,
      CHR 0x84, CHR 0xE3, CHR 0x80, CHR 0x82]"

definition search_url :: "app \<Rightarrow> string \<Rightarrow> string" where
  "search_url a q =
     API_ENDPOINT @ ''?key='' @ apiKey a @ ''&cx='' @ cx a @ ''&q='' @ q @ ''&num=''
       @ (case searchRank a of
            NaN \<Rightarrow> ''NaN''
          | Whole n \<Rightarrow> show_int n
          | Large digits \<Rightarrow> digits)
       @ ''&gl=jp&hl=ja''"

definition http_error :: "nat \<Rightarrow> string" where
  "http_error st = ''HTTP error! status: '' @ show_nat st"

section \<open>The Result Classifier (lines 116-125)\<close>

definition found_result :: "string \<Rightarrow> nat \<Rightarrow> string \<Rightarrow> SerpItem list \<Rightarrow> Result" where
  "found_result kw i host items =
     \<lparr>keyword = kw, status = Ok, rank = Some (i + 1), domain = Some host,
      serp = Some items, error = None\<rparr>"

definition ng_result :: "string \<Rightarrow> SerpItem list \<Rightarrow> Result" where
  "ng_result kw items =
     \<lparr>keyword = kw, status = Ng, rank = None, domain = None,
      serp = Some items, error = None\<rparr>"

definition error_result :: "string \<Rightarrow> string \<Rightarrow> Result" where
  "error_result kw msg =
     \<lparr>keyword = kw, status = Error, rank = None, domain = None,
      serp = None, error = Some msg\<rparr>"

definition loading_result :: "string \<Rightarrow> Result" where
  "loading_result kw =
     \<lparr>keyword = kw, status = Loading, rank = None, domain = None,
      serp = None, error = None\<rparr>"

text \<open>The \<open>for (let i = 0; i < items.length; i++)\<close> loop, entered at index \<open>i\<close>.\<close>

function find_from :: "url_parser \<Rightarrow> string list \<Rightarrow> string \<Rightarrow> SerpItem list \<Rightarrow> nat \<Rightarrow> Result option" where
  "find_from URL pats kw items i =
     (if i < length items then
        (let host = hostnameOf URL (link (items ! i)) in
         if includesAny host pats then Some (found_result kw i host items)
         else find_from URL pats kw items (i + 1))
      else None)"
  by pat_completeness auto
termination
  by (relation "measure (\<lambda>(URL, pats, kw, items, i). length items - i)") auto

definition classify :: "url_parser \<Rightarrow> string list \<Rightarrow> string \<Rightarrow> SerpItem list \<Rightarrow> Result" where
  "classify URL pats kw items =
     (case find_from URL pats kw items 0 of
        Some found \<Rightarrow> found
      | None \<Rightarrow> ng_result kw items)"

section \<open>\<open>handleCheck\<close> (lines 97-134)\<close>

text \<open>
  The body of the \<open>try\<close> block for one keyword: \<open>Inl msg\<close> when it throws an
  exception with message \<open>msg\<close>, \<open>Inr result\<close> when it reaches line 125; with the
  requests it sent.
\<close>

definition try_body :: "platform \<Rightarrow> app \<Rightarrow> nat \<Rightarrow> string \<Rightarrow> (string + Result) \<times> event list" where
  "try_body pf a i kw =
     (case encodeURIComponent pf kw of
        Inl msg \<Rightarrow> (Inl msg, [])
      | Inr q \<Rightarrow>
          (let url = search_url a q in
           (case fetch pf i url of
              Rejected msg \<Rightarrow> Inl msg
            | NotOk st body \<Rightarrow>
                (case body of
                   JsonThrows msg \<Rightarrow> Inl msg
                 | MemberThrows msg \<Rightarrow> Inl msg
                 | ErrorMessage None \<Rightarrow> Inl (http_error st)
                 | ErrorMessage (Some m) \<Rightarrow> Inl (if m \<noteq> [] then m else http_error st))
            | IsOk body \<Rightarrow>
                (case body of
                   DataThrows msg \<Rightarrow> Inl msg
                 | Data None \<Rightarrow> Inr (classify (URL_hostname pf) (qaDomainList a) kw [])
                 | Data (Some items) \<Rightarrow>
                     Inr (classify (URL_hostname pf) (qaDomainList a) kw items)),
            [Fetch url])))"

text \<open>\<open>prev.map(r => r.keyword === keyword ? result : r)\<close> (lines 126 and 129).\<close>

definition replace_keyword :: "string \<Rightarrow> Result \<Rightarrow> Result list \<Rightarrow> Result list" where
  "replace_keyword kw result prev = map (\<lambda>r. if keyword r = kw then result else r) prev"

text \<open>
  The object one iteration hands to \<open>setResults\<close>: \<open>result\<close> of line 125 when the
  \<open>try\<close> block completes, the error object of line 129 when it throws.
\<close>

definition settle :: "platform \<Rightarrow> app \<Rightarrow> nat \<Rightarrow> string \<Rightarrow> Result" where
  "settle pf a i kw =
     (case fst (try_body pf a i kw) of
        Inr result \<Rightarrow> result
      | Inl msg \<Rightarrow> error_result kw msg)"

text \<open>One iteration of the loop over \<open>keywordList\<close>: \<open>try\<close>, \<open>catch\<close> and the update.\<close>

definition iteration :: "platform \<Rightarrow> app \<Rightarrow> nat \<Rightarrow> string \<Rightarrow> Result list \<Rightarrow> Result list \<times> event list" where
  "iteration pf a i kw prev =
     (let rs = replace_keyword kw (settle pf a i kw) prev
      in (rs, snd (try_body pf a i kw) @ [SetResults rs]))"

fun for_keywords :: "platform \<Rightarrow> app \<Rightarrow> nat \<Rightarrow> string list \<Rightarrow> Result list \<Rightarrow> Result list \<times> event list" where
  "for_keywords pf a i [] prev = (prev, [])"
| "for_keywords pf a i (kw # kws) prev =
     (let (rs, evs) = iteration pf a i kw prev;
          (final, evs') = for_keywords pf a (i + 1) kws rs
      in (final, evs @ evs'))"

definition handleCheck :: "platform \<Rightarrow> app \<Rightarrow> app \<times> event list" where
  "handleCheck pf a =
     (if apiKey a = [] \<or> cx a = [] then (a, [Alert alert_message])
      else
        (let init = map loading_result (keywordList a);
             (final, evs) = for_keywords pf a 0 (keywordList a) init
         in (a\<lparr>results := final, isLoading := False\<rparr>,
             [SetIsLoading True, SetResults init] @ evs @ [SetIsLoading False])))"

text \<open>The successive values of \<open>results\<close> a run goes through.\<close>

fun snapshots :: "event list \<Rightarrow> Result list list" where
  "snapshots [] = []"
| "snapshots (SetResults rs # evs) = rs # snapshots evs"
| "snapshots (_ # evs) = snapshots evs"

fun fetches :: "event list \<Rightarrow> string list" where
  "fetches [] = []"
| "fetches (Fetch url # evs) = url # fetches evs"
| "fetches (_ # evs) = fetches evs"

definition terminal :: "status \<Rightarrow> bool" where
  "terminal s = (s = Ok \<or> s = Ng \<or> s = Error)"

section \<open>CSV export (lines 148-156 and 226)\<close>

definition label_ok :: string where
  "label_ok =
     [CHR 0xE2, CHR 0x97, CHR 0x8E, CHR 0x20, CHR 0xE7, CHR 0x8B, CHR 0x99, CHR 0xE3,
      CHR 0x81, CHR 0x84, CHR 0xE7, CHR 0x9B, CHR 0xAE]"

definition label_ng :: string where
  "label_ng =
     [CHR 0xE2, CHR 0x9C, CHR 0x96, CHR 0x20, CHR 0xE8, CHR 0xA6, CHR 0x8B, CHR 0xE9,
      CHR 0x80, CHR 0x81, CHR 0xE3, CHR 0x82, CHR 0x8A]"

definition csv_row :: "Result \<Rightarrow> string" where
  "csv_row r =
     join '',''
       [[CHR 0x22] @ keyword r @ [CHR 0x22],
        if status r = Ok then label_ok else label_ng,
        case rank r of Some n \<Rightarrow> show_nat n | None \<Rightarrow> [],
        case domain r of Some d \<Rightarrow> d | None \<Rightarrow> []]"

definition csv_lines :: "Result list \<Rightarrow> string list" where
  "csv_lines rs = join '','' [''Keyword'', ''Status'', ''Rank'', ''Domain''] # map csv_row rs"

text \<open>\<open>csvContent\<close> (line 156), the text handed to \<open>encodeURI\<close> and the download link.\<close>

definition csvContent :: "Result list \<Rightarrow> string" where
  "csvContent rs = ''data:text/csv;charset=utf-8,'' @ join [CHR 0x0A] (csv_lines rs)"

text \<open>
  The export button (lines 221-229): rendered when \<open>results\<close> is not empty, disabled
  while a row is loading. A click on it gives \<open>Some\<close> of the exported text, or \<open>None\<close>
  when there is nothing to click.
\<close>

definition export_disabled :: "Result list \<Rightarrow> bool" where
  "export_disabled rs = list_ex (\<lambda>r. status r = Loading) rs"

definition click_export :: "Result list \<Rightarrow> string option" where
  "click_export rs =
     (if 0 < length rs \<and> \<not> export_disabled rs then Some (csvContent rs) else None)"

section \<open>Example inputs\<close>

text \<open>
  The hostnames the browser's parser gives for the URLs of the examples; every other
  string of the examples is not a URL.
\<close>

definition ex_URL :: url_parser where
  "ex_URL u =
     (if u = ''https://www.example.com/x'' then Some ''www.example.com''
      else if u = ''https://www.www.example.com/'' then Some ''www.www.example.com''
      else if u = ''https://a.com/'' then Some ''a.com''
      else if u = ''https://b.com/'' then Some ''b.com''
      else if u = ''https://qa.co/q/1'' then Some ''qa.co''
      else None)"

definition item :: "string \<Rightarrow> SerpItem" where
  "item u = \<lparr>link = u, title = ''t'', snippet = ''s''\<rparr>"

text \<open>A platform and a component state for the examples.\<close>

definition ex_pf :: platform where
  "ex_pf =
     \<lparr>URL_hostname = ex_URL,
      encodeURIComponent = Inr,
      fetch = (\<lambda>i url.
        if i = 1 then NotOk 403 (ErrorMessage (Some ''Daily Limit Exceeded''))
        else if i = 2 then IsOk (Data (Some [item ''https://a.com/'', item ''https://b.com/'']))
        else IsOk (Data (Some [item ''https://a.com/'', item ''https://qa.co/q/1''])))\<rparr>"

definition ex_app :: app where
  "ex_app =
     \<lparr>apiKey = ''KEY'', cx = ''CX'', searchRank = Whole 10,
      keywordList = [''k1'', ''k2'', ''k3''], qaDomainList = [''qa.co''],
      results = [], isLoading = False\<rparr>"

definition no_key_app :: app where
  "no_key_app =
     \<lparr>apiKey = [], cx = ''CX'', searchRank = Whole 10,
      keywordList = [''k1'', ''k2'', ''k3''], qaDomainList = [''qa.co''],
      results = [], isLoading = False\<rparr>"

definition dup_app :: app where
  "dup_app =
     \<lparr>apiKey = ''KEY'', cx = ''CX'', searchRank = Whole 10,
      keywordList = [''k'', ''k''], qaDomainList = [''qa.co''],
      results = [], isLoading = False\<rparr>"

definition mixed_app :: app where
  "mixed_app =
     \<lparr>apiKey = ''KEY'', cx = ''CX'', searchRank = Whole 10,
      keywordList = [''k1'', ''k'', ''k''], qaDomainList = [''qa.co''],
      results = [], isLoading = False\<rparr>"

text \<open>\<open>String.prototype.trim\<close> on the ASCII text of the examples.\<close>

definition ex_space :: "char \<Rightarrow> bool" where
  "ex_space c = (c = CHR '' '' \<or> c = CHR 0x09 \<or> c = CHR 0x0A \<or> c = CHR 0x0D)"

definition ex_trim :: "string \<Rightarrow> string" where
  "ex_trim s = rev (dropWhile ex_space (rev (dropWhile ex_space s)))"

definition ex_url :: "string \<Rightarrow> string" where
  "ex_url q =
     ''https://www.googleapis.com/customsearch/v1?key=KEY&cx=CX&q='' @ q
       @ ''&num=10&gl=jp&hl=ja''"

text \<open>
  A platform whose answers are all non-success responses: a 502 whose body is not JSON
  (the message is the one Firefox gives for an HTML body), a 403 whose JSON body has no
  \<open>error\<close> member (the message is V8's), and a 403 whose \<open>error\<close> member has no
  \<open>message\<close>.
\<close>

definition bad_pf :: platform where
  "bad_pf =
     \<lparr>URL_hostname = ex_URL,
      encodeURIComponent = Inr,
      fetch = (\<lambda>i url.
        if i = 0 then
          NotOk 502 (JsonThrows
            ''JSON.parse: unexpected character at line 1 column 1 of the JSON data'')
        else if i = 1 then
          NotOk 403 (MemberThrows
            (''Cannot read properties of undefined (reading '' @ [CHR 0x27] @ ''message''
               @ [CHR 0x27] @ '')''))
        else NotOk 403 (ErrorMessage None))\<rparr>"

section \<open>Notions used by the statements\<close>

text \<open>An item counts when its normalized hostname matches the pattern list (line 119).\<close>

definition is_qa :: "url_parser \<Rightarrow> string list \<Rightarrow> SerpItem \<Rightarrow> bool" where
  "is_qa URL pats it = includesAny (hostnameOf URL (link it)) pats"

text \<open>The requests one iteration sends: one, or none when the keyword cannot be encoded.\<close>

definition sent :: "platform \<Rightarrow> app \<Rightarrow> string \<Rightarrow> event list" where
  "sent pf a kw =
     (case encodeURIComponent pf kw of
        Inl msg \<Rightarrow> []
      | Inr q \<Rightarrow> [Fetch (search_url a q)])"

text \<open>The values of \<open>results\<close> after each iteration of the loop.\<close>

fun states :: "platform \<Rightarrow> app \<Rightarrow> nat \<Rightarrow> string list \<Rightarrow> Result list \<Rightarrow> Result list list" where
  "states pf a i [] prev = []"
| "states pf a i (kw # kws) prev =
     replace_keyword kw (settle pf a i kw) prev
       # states pf a (i + 1) kws (replace_keyword kw (settle pf a i kw) prev)"

text \<open>The value of \<open>results\<close> when the loop ends.\<close>

definition final :: "platform \<Rightarrow> app \<Rightarrow> nat \<Rightarrow> string list \<Rightarrow> Result list \<Rightarrow> Result list" where
  "final pf a i kws prev = last (prev # states pf a i kws prev)"

text \<open>The platform in which request \<open>f\<close> is answered by \<open>g\<close> instead.\<close>

definition answer :: "platform \<Rightarrow> nat \<Rightarrow> (string \<Rightarrow> response) \<Rightarrow> platform" where
  "answer pf f g = pf\<lparr>fetch := (fetch pf)(f := g)\<rparr>"

text \<open>A row carries a rank and a domain only when it is matched.\<close>

definition blank_unless_ok :: "Result \<Rightarrow> bool" where
  "blank_unless_ok r = (status r \<noteq> Ok \<longrightarrow> rank r = None \<and> domain r = None)"

declare show_nat.simps [simp del]

declare find_from.simps [simp del]

section \<open>Hostname Normalizer\<close>

lemmas ex_eval = ex_URL_def item_def is_qa_def hostnameOf_def replace_at_start_def
  includesAny_def endsWith_def suffix_to_prefix

text \<open>
  C7. \<open>hostnameOf\<close> is total (the \<open>catch\<close> covers its whole body): a string the URL
  parser rejects gives the empty string; a parsed URL gives its hostname, without the
  leading \<open>www.\<close> when it has one and unchanged otherwise.
\<close>

theorem hostnameOf_total:
  "(URL url = None \<longrightarrow> hostnameOf URL url = [])
   \<and> (\<forall>h. URL url = Some (''www.'' @ h) \<longrightarrow> hostnameOf URL url = h)
   \<and> (\<forall>h. URL url = Some h \<and> \<not> prefix ''www.'' h \<longrightarrow> hostnameOf URL url = h)"
  by (simp add: hostnameOf_def replace_at_start_def)

theorem hostnameOf_total_witness:
  "ex_URL ''https://www.example.com/x'' = Some (''www.'' @ ''example.com'')
   \<and> hostnameOf ex_URL ''https://www.example.com/x'' = ''example.com''
   \<and> ex_URL ''not a url'' = None
   \<and> hostnameOf ex_URL ''not a url'' = []"
  using hostnameOf_total [of ex_URL "''https://www.example.com/x''"]
    hostnameOf_total [of ex_URL "''not a url''"]
  by (simp add: ex_URL_def)

text \<open>
  C10. Only one leading \<open>www.\<close> is removed: a hostname that starts with two of them
  keeps the second.
\<close>

theorem hostnameOf_strips_one_www:
  "URL url = Some (''www.'' @ ''www.'' @ h) \<Longrightarrow> hostnameOf URL url = ''www.'' @ h"
  by (simp add: hostnameOf_def replace_at_start_def)

theorem hostnameOf_strips_one_www_witness:
  "ex_URL ''https://www.www.example.com/'' = Some (''www.'' @ ''www.'' @ ''example.com'')
   \<and> hostnameOf ex_URL ''https://www.www.example.com/'' = ''www.example.com''"
  using hostnameOf_strips_one_www [of ex_URL "''https://www.www.example.com/''" "''example.com''"]
  by (simp add: ex_URL_def)

section \<open>Domain Matcher\<close>

lemma endsWith_iff: "endsWith h t \<longleftrightarrow> (\<exists>u. h = u @ t)"
  by (auto simp: endsWith_def suffix_def)

text \<open>
  The pattern list the component passes never holds the empty pattern: line 89 drops
  every entry that trims to the empty string.
\<close>

lemma qaDomainList_of_no_empty: "trim [] = [] \<Longrightarrow> [] \<notin> set (qaDomainList_of trim s)"
  by (auto simp: qaDomainList_of_def)

text \<open>
  C6. \<open>includesAny h P\<close> holds exactly when \<open>h\<close> equals a pattern of \<open>P\<close> or ends with
  a dot followed by one. The empty hostname matches no list of patterns, a pattern
  being a non-empty text: no list without the empty pattern, and so no list the
  component builds from the domain input, whatever that input is.
\<close>

theorem includesAny_iff:
  "(includesAny h P \<longleftrightarrow> (\<exists>p\<in>set P. h = p \<or> (\<exists>u. h = u @ ''.'' @ p)))
   \<and> ([] \<notin> set P \<longrightarrow> \<not> includesAny [] P)
   \<and> (trim [] = [] \<longrightarrow> \<not> includesAny [] (qaDomainList_of trim qaDomains))"
proof -
  have empty: "\<not> includesAny [] Q" if "[] \<notin> set Q" for Q
    using that by (auto simp: includesAny_def list_ex_iff endsWith_iff)
  have "includesAny h P \<longleftrightarrow> (\<exists>p\<in>set P. h = p \<or> (\<exists>u. h = u @ ''.'' @ p))"
    by (auto simp: includesAny_def list_ex_iff endsWith_iff)
  with empty [of P] empty [OF qaDomainList_of_no_empty [of trim qaDomains]]
  show ?thesis
    by blast
qed

lemma ex_qaDomainList:
  "qaDomainList_of ex_trim ''qa.co, ,example.com'' = [''qa.co'', ''example.com'']"
  by (simp add: qaDomainList_of_def ex_trim_def ex_space_def)

theorem includesAny_iff_witness:
  "includesAny ''example.com'' [''example.com'']
   \<and> includesAny ''sub.example.com'' [''example.com'']
   \<and> \<not> includesAny ''example.com'' [''other.com'']
   \<and> [] \<notin> set [''example.com'', ''other.com'']
   \<and> \<not> includesAny [] [''example.com'', ''other.com'']
   \<and> ex_trim [] = []
   \<and> \<not> includesAny [] (qaDomainList_of ex_trim ''qa.co, ,example.com'')"
proof -
  have pats: "[] \<notin> set [''example.com'', ''other.com'']"
    by simp
  have trim: "ex_trim [] = []"
    by (simp add: ex_trim_def)
  note T = includesAny_iff [of "[]" "[''example.com'', ''other.com'']" ex_trim "''qa.co, ,example.com''"]
  have none: "\<not> includesAny [] [''example.com'', ''other.com'']"
    using T [THEN conjunct2, THEN conjunct1] pats by (rule mp)
  have built: "\<not> includesAny [] (qaDomainList_of ex_trim ''qa.co, ,example.com'')"
    using T [THEN conjunct2, THEN conjunct2] trim by (rule mp)
  have same: "includesAny ''example.com'' [''example.com'']"
    using includesAny_iff [of "''example.com''" "[''example.com'']", THEN conjunct1]
    by (simp add: includesAny_def endsWith_def suffix_to_prefix)
  have sub: "includesAny ''sub.example.com'' [''example.com'']"
    using includesAny_iff [of "''sub.example.com''" "[''example.com'']", THEN conjunct1]
    by (simp add: includesAny_def endsWith_def suffix_to_prefix)
  have other: "\<not> includesAny ''example.com'' [''other.com'']"
    using includesAny_iff [of "''example.com''" "[''other.com'']", THEN conjunct1]
    by (simp add: includesAny_def endsWith_def suffix_to_prefix)
  from same sub other pats none trim built show ?thesis
    by (intro conjI)
qed

text \<open>The condition on the list is needed: the empty pattern matches the empty hostname.\<close>

lemma includesAny_empty_pattern: "includesAny [] [[]]"
  by (simp add: includesAny_def)

section \<open>Result Classifier\<close>

lemma find_from_serp:
  "find_from URL pats kw items i = Some r \<Longrightarrow> serp r = Some items"
proof (induction URL pats kw items i rule: find_from.induct)
  case (1 URL pats kw items i)
  from "1.prems" show ?case
    by (subst (asm) find_from.simps)
       (auto simp: found_result_def Let_def "1.IH" split: if_splits)
qed

lemma find_from_none:
  "\<forall>j. i \<le> j \<and> j < length items \<longrightarrow> \<not> is_qa URL pats (items ! j)
   \<Longrightarrow> find_from URL pats kw items i = None"
proof (induction URL pats kw items i rule: find_from.induct)
  case (1 URL pats kw items i)
  show ?case
  proof (cases "i < length items")
    case True
    with "1.prems" have no: "\<not> includesAny (hostnameOf URL (link (items ! i))) pats"
      by (simp add: is_qa_def)
    from "1.prems" have "\<forall>j. i + 1 \<le> j \<and> j < length items \<longrightarrow> \<not> is_qa URL pats (items ! j)"
      by simp
    with "1.IH" True no have "find_from URL pats kw items (i + 1) = None"
      by simp
    with True no show ?thesis
      by (subst find_from.simps) simp
  next
    case False
    then show ?thesis
      by (subst find_from.simps) simp
  qed
qed

lemma find_from_first:
  "i \<le> n \<Longrightarrow> n < length items \<Longrightarrow> is_qa URL pats (items ! n)
   \<Longrightarrow> \<forall>j. i \<le> j \<and> j < n \<longrightarrow> \<not> is_qa URL pats (items ! j)
   \<Longrightarrow> find_from URL pats kw items i
       = Some (found_result kw n (hostnameOf URL (link (items ! n))) items)"
proof (induction URL pats kw items i rule: find_from.induct)
  case (1 URL pats kw items i)
  from "1.prems" have lt: "i < length items" by simp
  show ?case
  proof (cases "i = n")
    case True
    with "1.prems" lt show ?thesis
      by (subst find_from.simps) (simp add: is_qa_def)
  next
    case False
    with "1.prems" have no: "\<not> includesAny (hostnameOf URL (link (items ! i))) pats"
      by (simp add: is_qa_def)
    from False "1.prems" have "i + 1 \<le> n" by simp
    moreover from "1.prems"
    have "\<forall>j. i + 1 \<le> j \<and> j < n \<longrightarrow> \<not> is_qa URL pats (items ! j)" by simp
    ultimately have "find_from URL pats kw items (i + 1)
        = Some (found_result kw n (hostnameOf URL (link (items ! n))) items)"
      using "1.IH" lt no "1.prems" by simp
    with lt no show ?thesis
      by (subst find_from.simps) simp
  qed
qed

text \<open>
  C1. When no item is a match the classifier gives the not-matched result; when item
  \<open>n\<close> (counted from 0) is the first match it gives the matched result with rank
  \<open>n + 1\<close> and that item's normalized hostname; either way the result carries the
  whole list.
\<close>

theorem classify_first_match:
  "((\<forall>j<length items. \<not> is_qa URL pats (items ! j)) \<longrightarrow>
      classify URL pats kw items
        = \<lparr>keyword = kw, status = Ng, rank = None, domain = None,
           serp = Some items, error = None\<rparr>)
   \<and> (\<forall>n. n < length items \<and> is_qa URL pats (items ! n)
          \<and> (\<forall>j<n. \<not> is_qa URL pats (items ! j)) \<longrightarrow>
      classify URL pats kw items
        = \<lparr>keyword = kw, status = Ok, rank = Some (n + 1),
           domain = Some (hostnameOf URL (link (items ! n))),
           serp = Some items, error = None\<rparr>)
   \<and> serp (classify URL pats kw items) = Some items"
proof (intro conjI allI impI)
  assume "\<forall>j<length items. \<not> is_qa URL pats (items ! j)"
  then have "find_from URL pats kw items 0 = None"
    by (intro find_from_none) simp
  then show "classify URL pats kw items
        = \<lparr>keyword = kw, status = Ng, rank = None, domain = None,
           serp = Some items, error = None\<rparr>"
    by (simp add: classify_def ng_result_def)
next
  fix n
  assume "n < length items \<and> is_qa URL pats (items ! n)
          \<and> (\<forall>j<n. \<not> is_qa URL pats (items ! j))"
  then have "find_from URL pats kw items 0
       = Some (found_result kw n (hostnameOf URL (link (items ! n))) items)"
    by (intro find_from_first) simp_all
  then show "classify URL pats kw items
        = \<lparr>keyword = kw, status = Ok, rank = Some (n + 1),
           domain = Some (hostnameOf URL (link (items ! n))),
           serp = Some items, error = None\<rparr>"
    by (simp add: classify_def found_result_def)
next
  show "serp (classify URL pats kw items) = Some items"
    by (auto simp: classify_def ng_result_def split: option.splits dest: find_from_serp)
qed

theorem classify_first_match_witness:
  "classify ex_URL [''qa.co''] ''k''
      [item ''https://a.com/'', item ''https://b.com/'', item ''https://qa.co/q/1'']
     = \<lparr>keyword = ''k'', status = Ok, rank = Some 3, domain = Some ''qa.co'',
        serp = Some [item ''https://a.com/'', item ''https://b.com/'', item ''https://qa.co/q/1''],
        error = None\<rparr>
   \<and> classify ex_URL [''qa.co''] ''k'' [item ''https://a.com/'', item ''https://b.com/'']
     = \<lparr>keyword = ''k'', status = Ng, rank = None, domain = None,
        serp = Some [item ''https://a.com/'', item ''https://b.com/''], error = None\<rparr>"
proof -
  let ?three = "[item ''https://a.com/'', item ''https://b.com/'', item ''https://qa.co/q/1'']"
  let ?two = "[item ''https://a.com/'', item ''https://b.com/'']"
  have first: "Suc (Suc 0) < length ?three \<and> is_qa ex_URL [''qa.co''] (?three ! Suc (Suc 0))
      \<and> (\<forall>j<Suc (Suc 0). \<not> is_qa ex_URL [''qa.co''] (?three ! j))"
    by (simp add: All_less_Suc ex_eval)
  have none: "\<forall>j<length ?two. \<not> is_qa ex_URL [''qa.co''] (?two ! j)"
    by (simp add: All_less_Suc ex_eval)
  have a: "classify ex_URL [''qa.co''] ''k'' ?three
      = \<lparr>keyword = ''k'', status = Ok, rank = Some (Suc (Suc 0) + 1),
         domain = Some (hostnameOf ex_URL (link (?three ! Suc (Suc 0)))),
         serp = Some ?three, error = None\<rparr>"
    using classify_first_match [of ?three ex_URL "[''qa.co'']" "''k''"] first by blast
  have b: "classify ex_URL [''qa.co''] ''k'' ?two
      = \<lparr>keyword = ''k'', status = Ng, rank = None, domain = None,
         serp = Some ?two, error = None\<rparr>"
    using classify_first_match [of ?two ex_URL "[''qa.co'']" "''k''"] none by blast
  show ?thesis
    unfolding a b by (simp add: ex_eval)
qed

section \<open>Missing credentials\<close>

text \<open>
  C2. With an empty API key or an empty search-engine identifier the handler only
  raises the alert: the component state, its \<open>results\<close> included, is unchanged, no
  row is written and no request is sent.
\<close>

theorem handleCheck_missing_credentials:
  "apiKey a = [] \<or> cx a = [] \<Longrightarrow>
     handleCheck pf a = (a, [Alert alert_message])
     \<and> fetches (snd (handleCheck pf a)) = []
     \<and> snapshots (snd (handleCheck pf a)) = []
     \<and> results (fst (handleCheck pf a)) = results a"
  by (auto simp: handleCheck_def)

theorem handleCheck_missing_credentials_witness:
  "(apiKey no_key_app = [] \<or> cx no_key_app = [])
   \<and> handleCheck ex_pf no_key_app = (no_key_app, [Alert alert_message])
   \<and> fetches (snd (handleCheck ex_pf no_key_app)) = []
   \<and> snapshots (snd (handleCheck ex_pf no_key_app)) = []
   \<and> results (fst (handleCheck ex_pf no_key_app)) = results no_key_app"
proof -
  have h: "apiKey no_key_app = [] \<or> cx no_key_app = []"
    by (simp add: no_key_app_def)
  from h handleCheck_missing_credentials [OF h, of ex_pf] show ?thesis
    by (rule conjI)
qed

section \<open>One keyword\<close>

lemma snd_try_body: "snd (try_body pf a i kw) = sent pf a kw"
  by (simp add: try_body_def sent_def Let_def split: sum.splits)

lemma find_from_unfold:
  "find_from URL pats kw items i =
     (if i < length items then
        (if includesAny (hostnameOf URL (link (items ! i))) pats
         then Some (found_result kw i (hostnameOf URL (link (items ! i))) items)
         else find_from URL pats kw items (i + 1))
      else None)"
  by (subst find_from.simps) (simp add: Let_def)

lemma find_from_found:
  "find_from URL pats kw items i = Some r \<Longrightarrow>
     keyword r = kw \<and> status r = Ok \<and> rank r \<noteq> None \<and> domain r \<noteq> None"
proof (induction URL pats kw items i rule: find_from.induct)
  case (1 URL pats kw items i)
  note found = "1.prems"
  show ?case
  proof (cases "i < length items")
    case inside: True
    show ?thesis
    proof (cases "includesAny (hostnameOf URL (link (items ! i))) pats")
      case True
      with inside found
      have "r = found_result kw i (hostnameOf URL (link (items ! i))) items"
        by (subst (asm) find_from_unfold) simp
      then show ?thesis
        by (simp add: found_result_def)
    next
      case False
      with inside found have "find_from URL pats kw items (i + 1) = Some r"
        by (subst (asm) find_from_unfold) simp
      with "1.IH" inside False show ?thesis
        by simp
    qed
  next
    case False
    with found show ?thesis
      by (subst (asm) find_from_unfold) simp
  qed
qed

lemma classify_keyword: "keyword (classify URL pats kw items) = kw"
  by (auto simp: classify_def ng_result_def split: option.splits dest: find_from_found)

lemma classify_status:
  "status (classify URL pats kw items) = Ok \<or> status (classify URL pats kw items) = Ng"
  by (auto simp: classify_def ng_result_def split: option.splits dest: find_from_found)

lemma classify_blank:
  "status (classify URL pats kw items) \<noteq> Ok \<Longrightarrow>
     rank (classify URL pats kw items) = None \<and> domain (classify URL pats kw items) = None"
  by (auto simp: classify_def ng_result_def split: option.splits dest: find_from_found)

lemma settle_cases:
  "(\<exists>msg. settle pf a i kw = error_result kw msg)
   \<or> (\<exists>items. settle pf a i kw = classify (URL_hostname pf) (qaDomainList a) kw items)"
  by (auto simp: settle_def try_body_def Let_def
      split: sum.splits response.splits error_body.splits ok_body.splits option.splits)

lemma settle_keyword: "keyword (settle pf a i kw) = kw"
  using settle_cases [of pf a i kw]
  by (auto simp: error_result_def classify_keyword)

lemma settle_terminal: "terminal (status (settle pf a i kw))"
proof -
  from settle_cases [of pf a i kw] show ?thesis
  proof (elim disjE exE)
    fix msg
    assume "settle pf a i kw = error_result kw msg"
    then show ?thesis
      by (simp add: error_result_def terminal_def)
  next
    fix items
    assume "settle pf a i kw = classify (URL_hostname pf) (qaDomainList a) kw items"
    with classify_status [of "URL_hostname pf" "qaDomainList a" kw items]
    show ?thesis
      by (auto simp: terminal_def)
  qed
qed

lemma settle_blank:
  "status (settle pf a i kw) \<noteq> Ok \<Longrightarrow>
     rank (settle pf a i kw) = None \<and> domain (settle pf a i kw) = None"
proof -
  assume not_ok: "status (settle pf a i kw) \<noteq> Ok"
  from settle_cases [of pf a i kw] show ?thesis
  proof (elim disjE exE)
    fix msg
    assume "settle pf a i kw = error_result kw msg"
    then show ?thesis
      by (simp add: error_result_def)
  next
    fix items
    assume "settle pf a i kw = classify (URL_hostname pf) (qaDomainList a) kw items"
    with not_ok classify_blank [of "URL_hostname pf" "qaDomainList a" kw items]
    show ?thesis
      by simp
  qed
qed

lemma snapshots_append: "snapshots (xs @ ys) = snapshots xs @ snapshots ys"
  by (induction xs rule: snapshots.induct) simp_all

lemma snapshots_sent: "snapshots (sent pf a kw) = []"
  by (simp add: sent_def split: sum.splits)

lemma iteration_eq:
  "iteration pf a i kw prev =
     (replace_keyword kw (settle pf a i kw) prev,
      sent pf a kw @ [SetResults (replace_keyword kw (settle pf a i kw) prev)])"
  by (simp add: iteration_def Let_def snd_try_body)

section \<open>The loop over the keywords\<close>

lemma length_states: "length (states pf a i kws prev) = length kws"
  by (induction kws arbitrary: i prev) simp_all

lemma for_keywords_events:
  "snd (for_keywords pf a i kws prev)
     = concat (map2 (\<lambda>kw rs. sent pf a kw @ [SetResults rs]) kws (states pf a i kws prev))"
  by (induction kws arbitrary: i prev) (simp_all add: iteration_eq case_prod_beta)

lemma for_keywords_final:
  "fst (for_keywords pf a i kws prev) = last (prev # states pf a i kws prev)"
  by (induction kws arbitrary: i prev) (simp_all add: iteration_eq case_prod_beta)

lemma snapshots_steps:
  "length kws = length ss \<Longrightarrow>
     snapshots (concat (map2 (\<lambda>kw rs. sent pf a kw @ [SetResults rs]) kws ss)) = ss"
  by (induction kws ss rule: list_induct2) (simp_all add: snapshots_append snapshots_sent)

lemma for_keywords_snapshots:
  "snapshots (snd (for_keywords pf a i kws prev)) = states pf a i kws prev"
  by (simp add: for_keywords_events snapshots_steps length_states)

lemma length_replace_keyword: "length (replace_keyword kw r prev) = length prev"
  by (simp add: replace_keyword_def)

lemma nth_replace_keyword:
  "m < length prev \<Longrightarrow>
     replace_keyword kw r prev ! m = (if keyword (prev ! m) = kw then r else prev ! m)"
  by (simp add: replace_keyword_def)

lemma states_length_rows:
  "s \<in> set (states pf a i kws prev) \<Longrightarrow> length s = length prev"
  by (induction kws arbitrary: i prev) (auto simp: length_replace_keyword)

lemma states_keywords:
  "s \<in> set (states pf a i kws prev) \<Longrightarrow> m < length prev \<Longrightarrow>
     keyword (s ! m) = keyword (prev ! m)"
proof (induction kws arbitrary: i prev)
  case Nil
  then show ?case by simp
next
  case (Cons kw kws)
  let ?rs = "replace_keyword kw (settle pf a i kw) prev"
  have same: "keyword (?rs ! m) = keyword (prev ! m)"
    using Cons.prems(2) by (simp add: nth_replace_keyword settle_keyword)
  from Cons.prems(1) have "s = ?rs \<or> s \<in> set (states pf a (i + 1) kws ?rs)"
    by simp
  then show ?case
  proof
    assume "s = ?rs"
    with same show ?thesis by simp
  next
    assume "s \<in> set (states pf a (i + 1) kws ?rs)"
    with Cons.IH [of "i + 1" ?rs] Cons.prems(2) same show ?thesis
      by (simp add: length_replace_keyword)
  qed
qed

text \<open>After the iteration of a keyword every row of that keyword is terminal.\<close>

lemma states_nth_terminal:
  "n < length kws \<Longrightarrow> m < length prev \<Longrightarrow> keyword (prev ! m) = kws ! n \<Longrightarrow>
     terminal (status (states pf a i kws prev ! n ! m))"
proof (induction kws arbitrary: i prev n)
  case Nil
  then show ?case by simp
next
  case (Cons kw kws)
  let ?rs = "replace_keyword kw (settle pf a i kw) prev"
  show ?case
  proof (cases n)
    case 0
    with Cons.prems show ?thesis
      by (simp add: nth_replace_keyword settle_terminal)
  next
    case (Suc n')
    have "keyword (?rs ! m) = keyword (prev ! m)"
      using Cons.prems(2) by (simp add: nth_replace_keyword settle_keyword)
    with Suc Cons.prems Cons.IH [of n' ?rs "i + 1"] show ?thesis
      by (simp add: length_replace_keyword)
  qed
qed

lemma handleCheck_events:
  "apiKey a \<noteq> [] \<Longrightarrow> cx a \<noteq> [] \<Longrightarrow>
     snd (handleCheck pf a)
       = [SetIsLoading True, SetResults (map loading_result (keywordList a))]
         @ concat (map2 (\<lambda>kw rs. sent pf a kw @ [SetResults rs]) (keywordList a)
             (states pf a 0 (keywordList a) (map loading_result (keywordList a))))
         @ [SetIsLoading False]"
  by (simp add: handleCheck_def Let_def case_prod_beta for_keywords_events)

lemma handleCheck_results:
  "apiKey a \<noteq> [] \<Longrightarrow> cx a \<noteq> [] \<Longrightarrow>
     results (fst (handleCheck pf a))
       = last (map loading_result (keywordList a)
               # states pf a 0 (keywordList a) (map loading_result (keywordList a)))"
  by (simp add: handleCheck_def Let_def case_prod_beta for_keywords_final)

section \<open>Sequential processing\<close>

text \<open>The runs of the examples, evaluated.\<close>

lemmas run_eval = handleCheck_def Let_def iteration_def settle_def try_body_def
  replace_keyword_def search_url_def API_ENDPOINT_def show_int_def show_nat.simps digit_def
  classify_def find_from_unfold found_result_def ng_result_def error_result_def
  loading_result_def ex_pf_def ex_app_def ex_url_def ex_eval

lemma ex_run:
  "snd (handleCheck ex_pf ex_app)
     = [SetIsLoading True,
        SetResults [loading_result ''k1'', loading_result ''k2'', loading_result ''k3''],
        Fetch (ex_url ''k1''),
        SetResults
          [found_result ''k1'' 1 ''qa.co'' [item ''https://a.com/'', item ''https://qa.co/q/1''],
           loading_result ''k2'', loading_result ''k3''],
        Fetch (ex_url ''k2''),
        SetResults
          [found_result ''k1'' 1 ''qa.co'' [item ''https://a.com/'', item ''https://qa.co/q/1''],
           error_result ''k2'' ''Daily Limit Exceeded'', loading_result ''k3''],
        Fetch (ex_url ''k3''),
        SetResults
          [found_result ''k1'' 1 ''qa.co'' [item ''https://a.com/'', item ''https://qa.co/q/1''],
           error_result ''k2'' ''Daily Limit Exceeded'',
           ng_result ''k3'' [item ''https://a.com/'', item ''https://b.com/'']],
        SetIsLoading False]"
  by (simp add: run_eval)

lemma dup_run:
  "snapshots (snd (handleCheck ex_pf dup_app))
     = [[loading_result ''k'', loading_result ''k''],
        [found_result ''k'' 1 ''qa.co'' [item ''https://a.com/'', item ''https://qa.co/q/1''],
         found_result ''k'' 1 ''qa.co'' [item ''https://a.com/'', item ''https://qa.co/q/1'']],
        [error_result ''k'' ''Daily Limit Exceeded'',
         error_result ''k'' ''Daily Limit Exceeded'']]"
  by (simp add: run_eval dup_app_def)

text \<open>
  C3. With both credentials present the effects of a run are, in this order: the
  loading flag, one update that sets a loading row for every keyword, then for each
  keyword in list order its request followed by the update in which its row is
  terminal, then the loading flag again. So every row is loading before the first
  request, and the row of a keyword is terminal before the next request is sent.
\<close>

theorem handleCheck_sequential:
  assumes "apiKey a \<noteq> []" and "cx a \<noteq> []"
  shows "\<exists>ss. length ss = length (keywordList a)
     \<and> snd (handleCheck pf a)
         = [SetIsLoading True, SetResults (map loading_result (keywordList a))]
           @ concat (map2 (\<lambda>kw rs. sent pf a kw @ [SetResults rs]) (keywordList a) ss)
           @ [SetIsLoading False]
     \<and> (\<forall>r\<in>set (map loading_result (keywordList a)). status r = Loading)
     \<and> (\<forall>n<length (keywordList a).
           length (ss ! n) = length (keywordList a)
           \<and> keyword (ss ! n ! n) = keywordList a ! n
           \<and> terminal (status (ss ! n ! n)))"
proof (intro exI conjI allI impI ballI)
  let ?kws = "keywordList a"
  let ?init = "map loading_result ?kws"
  let ?ss = "states pf a 0 ?kws ?init"
  show "length ?ss = length ?kws"
    by (rule length_states)
  show "snd (handleCheck pf a)
         = [SetIsLoading True, SetResults ?init]
           @ concat (map2 (\<lambda>kw rs. sent pf a kw @ [SetResults rs]) ?kws ?ss)
           @ [SetIsLoading False]"
    using assms by (rule handleCheck_events)
  show "status r = Loading" if "r \<in> set ?init" for r
    using that by (auto simp: loading_result_def)
  fix n
  assume n: "n < length ?kws"
  then have mem: "?ss ! n \<in> set ?ss"
    by (simp add: length_states)
  from states_length_rows [OF mem] show "length (?ss ! n) = length ?kws"
    by simp
  have init_kw: "keyword (?init ! n) = ?kws ! n"
    using n by (simp add: loading_result_def)
  from states_keywords [OF mem, of n] n init_kw show "keyword (?ss ! n ! n) = ?kws ! n"
    by simp
  from states_nth_terminal [of n ?kws n ?init pf a 0] n init_kw
  show "terminal (status (?ss ! n ! n))"
    by simp
qed

theorem handleCheck_sequential_witness:
  "apiKey ex_app \<noteq> [] \<and> cx ex_app \<noteq> []
   \<and> (\<exists>ss. length ss = length (keywordList ex_app)
        \<and> snd (handleCheck ex_pf ex_app)
            = [SetIsLoading True, SetResults (map loading_result (keywordList ex_app))]
              @ concat (map2 (\<lambda>kw rs. sent ex_pf ex_app kw @ [SetResults rs])
                  (keywordList ex_app) ss)
              @ [SetIsLoading False])
   \<and> snd (handleCheck ex_pf ex_app)
       = [SetIsLoading True,
          SetResults [loading_result ''k1'', loading_result ''k2'', loading_result ''k3''],
          Fetch (ex_url ''k1''),
          SetResults
            [found_result ''k1'' 1 ''qa.co'' [item ''https://a.com/'', item ''https://qa.co/q/1''],
             loading_result ''k2'', loading_result ''k3''],
          Fetch (ex_url ''k2''),
          SetResults
            [found_result ''k1'' 1 ''qa.co'' [item ''https://a.com/'', item ''https://qa.co/q/1''],
             error_result ''k2'' ''Daily Limit Exceeded'', loading_result ''k3''],
          Fetch (ex_url ''k3''),
          SetResults
            [found_result ''k1'' 1 ''qa.co'' [item ''https://a.com/'', item ''https://qa.co/q/1''],
             error_result ''k2'' ''Daily Limit Exceeded'',
             ng_result ''k3'' [item ''https://a.com/'', item ''https://b.com/'']],
          SetIsLoading False]"
proof -
  have key: "apiKey ex_app \<noteq> []" and cx: "cx ex_app \<noteq> []"
    by (simp_all add: ex_app_def)
  from handleCheck_sequential [OF key cx, of ex_pf]
  have "\<exists>ss. length ss = length (keywordList ex_app)
        \<and> snd (handleCheck ex_pf ex_app)
            = [SetIsLoading True, SetResults (map loading_result (keywordList ex_app))]
              @ concat (map2 (\<lambda>kw rs. sent ex_pf ex_app kw @ [SetResults rs])
                  (keywordList ex_app) ss)
              @ [SetIsLoading False]"
    by blast
  with key cx ex_run show ?thesis
    by blast
qed

section \<open>Terminal rows\<close>

lemma handleCheck_snapshots:
  "apiKey a \<noteq> [] \<Longrightarrow> cx a \<noteq> [] \<Longrightarrow>
     snapshots (snd (handleCheck pf a))
       = map loading_result (keywordList a)
         # states pf a 0 (keywordList a) (map loading_result (keywordList a))"
  by (simp add: handleCheck_events snapshots_append snapshots_steps length_states)

lemma states_step:
  "m < length kws \<Longrightarrow>
     states pf a i kws prev ! m
       = replace_keyword (kws ! m) (settle pf a (i + m) (kws ! m))
           ((prev # states pf a i kws prev) ! m)"
proof (induction kws arbitrary: i prev m)
  case Nil
  then show ?case by simp
next
  case (Cons kw kws)
  show ?case
  proof (cases m)
    case 0
    then show ?thesis by simp
  next
    case (Suc m')
    with Cons.prems have "m' < length kws" by simp
    from Cons.IH [OF this, of "i + 1" "replace_keyword kw (settle pf a i kw) prev"] Suc
    show ?thesis by simp
  qed
qed

lemma states_row_keyword:
  "m \<le> length kws \<Longrightarrow> n < length prev \<Longrightarrow>
     keyword ((prev # states pf a i kws prev) ! m ! n) = keyword (prev ! n)"
proof (cases m)
  case 0
  then show ?thesis by simp
next
  case (Suc m')
  assume "m \<le> length kws" and n: "n < length prev"
  with Suc have "states pf a i kws prev ! m' \<in> set (states pf a i kws prev)"
    by (simp add: length_states)
  from states_keywords [OF this n] Suc show ?thesis
    by simp
qed

lemma states_row_length:
  "m \<le> length kws \<Longrightarrow> length ((prev # states pf a i kws prev) ! m) = length prev"
proof (cases m)
  case 0
  then show ?thesis by simp
next
  case (Suc m')
  assume "m \<le> length kws"
  with Suc have "states pf a i kws prev ! m' \<in> set (states pf a i kws prev)"
    by (simp add: length_states)
  from states_length_rows [OF this] Suc show ?thesis
    by simp
qed

lemma snapshots_credentials:
  "snapshots (snd (handleCheck pf a)) \<noteq> [] \<Longrightarrow> apiKey a \<noteq> [] \<and> cx a \<noteq> []"
  by (auto simp: handleCheck_def)

lemma length_snapshots:
  "apiKey a \<noteq> [] \<Longrightarrow> cx a \<noteq> [] \<Longrightarrow>
     length (snapshots (snd (handleCheck pf a))) = length (keywordList a) + 1"
  by (simp add: handleCheck_snapshots length_states)

text \<open>
  The update of iteration \<open>m\<close>: the rows that carry its keyword become its result, the
  others stay.
\<close>

lemma snapshot_step:
  assumes "m + 1 < length (snapshots (snd (handleCheck pf a)))"
    and "n < length (keywordList a)"
  shows "snapshots (snd (handleCheck pf a)) ! (m + 1) ! n
       = (if keywordList a ! n = keywordList a ! m
          then settle pf a m (keywordList a ! m)
          else snapshots (snd (handleCheck pf a)) ! m ! n)"
proof -
  let ?kws = "keywordList a"
  let ?init = "map loading_result ?kws"
  let ?ss = "?init # states pf a 0 ?kws ?init"
  from assms(1) have "snapshots (snd (handleCheck pf a)) \<noteq> []"
    by auto
  then have creds: "apiKey a \<noteq> []" "cx a \<noteq> []"
    using snapshots_credentials by blast+
  then have ss: "snapshots (snd (handleCheck pf a)) = ?ss"
    by (rule handleCheck_snapshots)
  from assms(1) have m: "m < length ?kws"
    by (simp add: ss length_states)
  have len: "length (?ss ! m) = length ?kws"
    using m states_row_length [of m ?kws ?init pf a 0] by simp
  have key: "keyword (?ss ! m ! n) = ?kws ! n"
    using m assms(2) states_row_keyword [of m ?kws n ?init pf a 0]
    by (simp add: loading_result_def)
  have "?ss ! (m + 1) = replace_keyword (?kws ! m) (settle pf a m (?kws ! m)) (?ss ! m)"
    using states_step [OF m, of pf a 0 ?init] by simp
  with len key assms(2) show ?thesis
    by (simp add: ss nth_replace_keyword)
qed

text \<open>A row stays as it is over the iterations of keywords with another text.\<close>

lemma snapshot_frame:
  assumes "i \<le> j" and "j < length (snapshots (snd (handleCheck pf a)))"
    and "n < length (keywordList a)"
    and "\<forall>m. i \<le> m \<and> m < j \<longrightarrow> keywordList a ! m \<noteq> keywordList a ! n"
  shows "snapshots (snd (handleCheck pf a)) ! j ! n
       = snapshots (snd (handleCheck pf a)) ! i ! n"
  using assms
proof (induction j)
  case 0
  then show ?case by simp
next
  case (Suc j)
  show ?case
  proof (cases "i = Suc j")
    case True
    then show ?thesis by simp
  next
    case False
    with Suc.prems have le: "i \<le> j" and lt: "j < length (snapshots (snd (handleCheck pf a)))"
      by simp_all
    from Suc.prems(4) le have other: "keywordList a ! n \<noteq> keywordList a ! j"
      by (metis lessI)
    from Suc.prems(4) have "\<forall>m. i \<le> m \<and> m < j \<longrightarrow> keywordList a ! m \<noteq> keywordList a ! n"
      by simp
    with Suc.IH le lt Suc.prems(3)
    have "snapshots (snd (handleCheck pf a)) ! j ! n
        = snapshots (snd (handleCheck pf a)) ! i ! n"
      by simp
    moreover from snapshot_step [of j pf a n] Suc.prems(2,3) other
    have "snapshots (snd (handleCheck pf a)) ! Suc j ! n
        = snapshots (snd (handleCheck pf a)) ! j ! n"
      by simp
    ultimately show ?thesis by simp
  qed
qed

text \<open>A terminal row has had an iteration of its text.\<close>

lemma terminal_row_processed:
  assumes "i < length (snapshots (snd (handleCheck pf a)))"
    and "n < length (keywordList a)"
    and "terminal (status (snapshots (snd (handleCheck pf a)) ! i ! n))"
  shows "\<exists>m<i. keywordList a ! m = keywordList a ! n"
proof (rule ccontr)
  assume "\<not> (\<exists>m<i. keywordList a ! m = keywordList a ! n)"
  then have "\<forall>m. 0 \<le> m \<and> m < i \<longrightarrow> keywordList a ! m \<noteq> keywordList a ! n"
    by simp
  from snapshot_frame [OF _ assms(1,2) this]
  have same: "snapshots (snd (handleCheck pf a)) ! i ! n
      = snapshots (snd (handleCheck pf a)) ! 0 ! n"
    by simp
  from assms(1) have "snapshots (snd (handleCheck pf a)) \<noteq> []"
    by auto
  then have "apiKey a \<noteq> []" "cx a \<noteq> []"
    using snapshots_credentials by blast+
  then have "snapshots (snd (handleCheck pf a)) ! 0 = map loading_result (keywordList a)"
    by (simp add: handleCheck_snapshots)
  with same assms(2,3) show False
    by (simp add: loading_result_def terminal_def)
qed

text \<open>
  C5, as the claim states it, fails for a list with a repeated keyword: in the run over
  \<open>[k, k]\<close> row 0 is terminal in the value of \<open>results\<close> after the first request, and
  differs from it in the value after the second, whose update rewrites both rows.
\<close>

theorem duplicate_keywords_counterexample:
  "apiKey dup_app \<noteq> [] \<and> cx dup_app \<noteq> []
   \<and> keywordList dup_app = [''k'', ''k'']
   \<and> (1::nat) \<le> 2
   \<and> 2 < length (snapshots (snd (handleCheck ex_pf dup_app)))
   \<and> 0 < length (snapshots (snd (handleCheck ex_pf dup_app)) ! 1)
   \<and> terminal (status (snapshots (snd (handleCheck ex_pf dup_app)) ! 1 ! 0))
   \<and> snapshots (snd (handleCheck ex_pf dup_app)) ! 2 ! 0
       \<noteq> snapshots (snd (handleCheck ex_pf dup_app)) ! 1 ! 0"
  unfolding dup_run
  by (simp add: dup_app_def terminal_def found_result_def error_result_def)

text \<open>
  C5, amended. Write \<open>ss\<close> for the successive values of \<open>results\<close> in a run, \<open>ss ! 0\<close>
  the loading rows and \<open>ss ! (m + 1)\<close> the value after the iteration of keyword \<open>m\<close>.
  The update of iteration \<open>m\<close> replaces every row that carries the text of keyword \<open>m\<close>,
  terminal or not, by the result of that iteration, and leaves every other row as it
  was. So a row is the same before and after any stretch of iterations in which its
  text does not occur; and a row whose text occurs once in the list never changes
  again once it is terminal.
\<close>

theorem terminal_rows_stay:
  fixes pf :: platform and a :: app
  defines "ss \<equiv> snapshots (snd (handleCheck pf a))" and "kws \<equiv> keywordList a"
  shows "(\<forall>m n. m + 1 < length ss \<and> n < length kws \<longrightarrow>
            ss ! (m + 1) ! n
              = (if kws ! n = kws ! m then settle pf a m (kws ! m) else ss ! m ! n))
    \<and> (\<forall>i j n. i \<le> j \<and> j < length ss \<and> n < length kws
            \<and> (\<forall>m. i \<le> m \<and> m < j \<longrightarrow> kws ! m \<noteq> kws ! n) \<longrightarrow>
            ss ! j ! n = ss ! i ! n)
    \<and> (\<forall>i j n. i \<le> j \<and> j < length ss \<and> n < length kws
            \<and> terminal (status (ss ! i ! n))
            \<and> (\<forall>m<length kws. m \<noteq> n \<longrightarrow> kws ! m \<noteq> kws ! n) \<longrightarrow>
            ss ! j ! n = ss ! i ! n)"
proof (intro conjI allI impI)
  fix m n
  assume "m + 1 < length ss \<and> n < length kws"
  then have "m + 1 < length (snapshots (snd (handleCheck pf a)))"
    and "n < length (keywordList a)"
    unfolding ss_def kws_def by simp_all
  from snapshot_step [OF this]
  show "ss ! (m + 1) ! n
      = (if kws ! n = kws ! m then settle pf a m (kws ! m) else ss ! m ! n)"
    unfolding ss_def kws_def .
next
  fix i j n
  assume "i \<le> j \<and> j < length ss \<and> n < length kws
            \<and> (\<forall>m. i \<le> m \<and> m < j \<longrightarrow> kws ! m \<noteq> kws ! n)"
  then show "ss ! j ! n = ss ! i ! n"
    unfolding ss_def kws_def by (intro snapshot_frame) simp_all
next
  fix i j n
  assume h: "i \<le> j \<and> j < length ss \<and> n < length kws
            \<and> terminal (status (ss ! i ! n))
            \<and> (\<forall>m<length kws. m \<noteq> n \<longrightarrow> kws ! m \<noteq> kws ! n)"
  then have "i < length ss"
    by simp
  with h terminal_row_processed [of i pf a n]
  obtain m where m: "m < i" "kws ! m = kws ! n"
    unfolding ss_def kws_def by blast
  have bound: "length ss = length kws + 1"
  proof -
    from h have "snapshots (snd (handleCheck pf a)) \<noteq> []"
      unfolding ss_def by auto
    then have "apiKey a \<noteq> []" "cx a \<noteq> []"
      using snapshots_credentials by blast+
    then show ?thesis
      unfolding ss_def kws_def by (rule length_snapshots)
  qed
  from m h bound have "m = n"
    by (metis less_Suc_eq_le Suc_eq_plus1 less_le_trans order_less_le_trans)
  with m have "n < i" by simp
  with h bound have "\<forall>m. i \<le> m \<and> m < j \<longrightarrow> kws ! m \<noteq> kws ! n"
    by auto
  with h show "ss ! j ! n = ss ! i ! n"
    unfolding ss_def kws_def by (intro snapshot_frame) simp_all
qed

lemma mixed_run:
  "snapshots (snd (handleCheck ex_pf mixed_app))
     = [[loading_result ''k1'', loading_result ''k'', loading_result ''k''],
        [found_result ''k1'' 1 ''qa.co'' [item ''https://a.com/'', item ''https://qa.co/q/1''],
         loading_result ''k'', loading_result ''k''],
        [found_result ''k1'' 1 ''qa.co'' [item ''https://a.com/'', item ''https://qa.co/q/1''],
         error_result ''k'' ''Daily Limit Exceeded'',
         error_result ''k'' ''Daily Limit Exceeded''],
        [found_result ''k1'' 1 ''qa.co'' [item ''https://a.com/'', item ''https://qa.co/q/1''],
         ng_result ''k'' [item ''https://a.com/'', item ''https://b.com/''],
         ng_result ''k'' [item ''https://a.com/'', item ''https://b.com/'']]]"
  by (simp add: run_eval mixed_app_def)

theorem terminal_rows_stay_witness:
  "keywordList mixed_app = [''k1'', ''k'', ''k'']
   \<and> (1::nat) \<le> 3
   \<and> 3 < length (snapshots (snd (handleCheck ex_pf mixed_app)))
   \<and> 0 < length (keywordList mixed_app)
   \<and> terminal (status (snapshots (snd (handleCheck ex_pf mixed_app)) ! 1 ! 0))
   \<and> snapshots (snd (handleCheck ex_pf mixed_app)) ! 3 ! 0
       = snapshots (snd (handleCheck ex_pf mixed_app)) ! 1 ! 0
   \<and> snapshots (snd (handleCheck ex_pf mixed_app)) ! (2 + 1) ! 1
       = settle ex_pf mixed_app 2 (keywordList mixed_app ! 2)"
proof -
  let ?ss = "snapshots (snd (handleCheck ex_pf mixed_app))"
  let ?kws = "keywordList mixed_app"
  note T = terminal_rows_stay [of ex_pf mixed_app]
  have kws: "?kws = [''k1'', ''k'', ''k'']"
    by (simp add: mixed_app_def)
  have le: "(1::nat) \<le> 3"
    by simp
  have j: "3 < length ?ss" and t: "terminal (status (?ss ! 1 ! 0))"
    unfolding mixed_run by (simp_all add: terminal_def found_result_def)
  have n: "0 < length ?kws"
    by (simp add: kws)
  have once: "\<forall>m<length ?kws. m \<noteq> 0 \<longrightarrow> ?kws ! m \<noteq> ?kws ! 0"
    by (simp add: kws All_less_Suc numeral_3_eq_3)
  from T [THEN conjunct2, THEN conjunct2, rule_format, of 1 3 0] le j n t once
  have stay: "?ss ! 3 ! 0 = ?ss ! 1 ! 0"
    by simp
  have "2 + 1 < length ?ss" and "1 < length ?kws" and "?kws ! 1 = ?kws ! 2"
    unfolding mixed_run by (simp_all add: kws)
  with T [THEN conjunct1, rule_format, of 2 1]
  have step: "?ss ! (2 + 1) ! 1 = settle ex_pf mixed_app 2 (?kws ! 2)"
    by simp
  from kws le j n t stay step show ?thesis
    by (intro conjI)
qed

section \<open>Failure isolation\<close>

lemma final_Nil: "final pf a i [] prev = prev"
  by (simp add: final_def)

lemma final_Cons:
  "final pf a i (kw # kws) prev
     = final pf a (i + 1) kws (replace_keyword kw (settle pf a i kw) prev)"
  by (simp add: final_def)

lemma length_final: "length (final pf a i kws prev) = length prev"
  by (induction kws arbitrary: i prev) (simp_all add: final_Nil final_Cons length_replace_keyword)

lemma final_keyword:
  "m < length prev \<Longrightarrow> keyword (final pf a i kws prev ! m) = keyword (prev ! m)"
  by (induction kws arbitrary: i prev)
     (simp_all add: final_Nil final_Cons length_replace_keyword nth_replace_keyword settle_keyword)

lemma final_terminal:
  "m < length prev \<Longrightarrow>
   terminal (status (prev ! m)) \<or> keyword (prev ! m) \<in> set kws \<Longrightarrow>
     terminal (status (final pf a i kws prev ! m))"
proof (induction kws arbitrary: i prev)
  case Nil
  then show ?case by (simp add: final_Nil)
next
  case (Cons kw kws)
  let ?rs = "replace_keyword kw (settle pf a i kw) prev"
  from Cons.prems
  have "terminal (status (?rs ! m)) \<or> keyword (?rs ! m) \<in> set kws"
    by (auto simp: nth_replace_keyword settle_terminal)
  with Cons.IH [of ?rs "i + 1"] Cons.prems(1) show ?case
    by (simp add: final_Cons length_replace_keyword)
qed

lemma final_untouched:
  "m < length prev \<Longrightarrow> keyword (prev ! m) \<notin> set kws \<Longrightarrow>
     final pf a i kws prev ! m = prev ! m"
proof (induction kws arbitrary: i prev)
  case Nil
  then show ?case by (simp add: final_Nil)
next
  case (Cons kw kws)
  let ?rs = "replace_keyword kw (settle pf a i kw) prev"
  from Cons.prems have same: "?rs ! m = prev ! m"
    by (simp add: nth_replace_keyword)
  with Cons.IH [of ?rs "i + 1"] Cons.prems show ?case
    by (simp add: final_Cons length_replace_keyword)
qed

lemma final_distinct:
  "distinct kws \<Longrightarrow> n < length kws \<Longrightarrow> m < length prev \<Longrightarrow>
   keyword (prev ! m) = kws ! n \<Longrightarrow>
     final pf a i kws prev ! m = settle pf a (i + n) (kws ! n)"
proof (induction kws arbitrary: i prev n)
  case Nil
  then show ?case by simp
next
  case (Cons kw kws)
  let ?rs = "replace_keyword kw (settle pf a i kw) prev"
  show ?case
  proof (cases n)
    case 0
    with Cons.prems have row: "?rs ! m = settle pf a i kw"
      by (simp add: nth_replace_keyword)
    from Cons.prems(1) have "keyword (?rs ! m) \<notin> set kws"
      by (simp add: row settle_keyword)
    with final_untouched [of m ?rs kws pf a "i + 1"] Cons.prems(3)
    have "final pf a (i + 1) kws ?rs ! m = ?rs ! m"
      by (simp add: length_replace_keyword)
    with row 0 show ?thesis
      by (simp add: final_Cons)
  next
    case (Suc n')
    with Cons.prems have n': "n' < length kws" and key: "keyword (prev ! m) = kws ! n'"
      by simp_all
    from n' Cons.prems(1) key have "keyword (prev ! m) \<noteq> kw"
      by auto
    with Cons.prems(3) have "?rs ! m = prev ! m"
      by (simp add: nth_replace_keyword)
    with Cons.IH [of n' ?rs "i + 1"] Cons.prems(1,3) n' key Suc show ?thesis
      by (simp add: final_Cons length_replace_keyword)
  qed
qed

lemma settle_answer: "i \<noteq> f \<Longrightarrow> settle (answer pf f g) a i kw = settle pf a i kw"
  by (simp add: settle_def try_body_def answer_def Let_def
      split: sum.splits response.splits error_body.splits ok_body.splits option.splits)

lemma final_answer:
  "length prev' = length prev \<Longrightarrow>
   \<forall>k<length prev. keyword (prev' ! k) = keyword (prev ! k) \<Longrightarrow>
   m < length prev \<Longrightarrow> prev' ! m = prev ! m \<Longrightarrow>
   (i \<le> f \<and> f - i < length kws \<longrightarrow> kws ! (f - i) \<noteq> keyword (prev ! m)) \<Longrightarrow>
     final (answer pf f g) a i kws prev' ! m = final pf a i kws prev ! m"
proof (induction kws arbitrary: i prev prev')
  case Nil
  then show ?case by (simp add: final_Nil)
next
  case (Cons kw kws)
  let ?rs = "replace_keyword kw (settle pf a i kw) prev"
  let ?rs' = "replace_keyword kw (settle (answer pf f g) a i kw) prev'"
  have len: "length ?rs' = length ?rs"
    using Cons.prems(1) by (simp add: length_replace_keyword)
  have keys: "\<forall>k<length ?rs. keyword (?rs' ! k) = keyword (?rs ! k)"
    using Cons.prems(1,2) by (simp add: length_replace_keyword nth_replace_keyword settle_keyword)
  have row: "?rs' ! m = ?rs ! m"
  proof (cases "keyword (prev ! m) = kw")
    case True
    with Cons.prems(5) have "i \<noteq> f"
      by auto
    with True Cons.prems(1,3,4) show ?thesis
      by (simp add: nth_replace_keyword settle_answer)
  next
    case False
    with Cons.prems(1,3,4) show ?thesis
      by (simp add: nth_replace_keyword)
  qed
  have key_m: "keyword (?rs ! m) = keyword (prev ! m)"
    using Cons.prems(3) by (simp add: nth_replace_keyword settle_keyword)
  have other: "i + 1 \<le> f \<and> f - (i + 1) < length kws \<longrightarrow> kws ! (f - (i + 1)) \<noteq> keyword (?rs ! m)"
  proof (intro impI)
    assume range: "i + 1 \<le> f \<and> f - (i + 1) < length kws"
    then have "i \<le> f \<and> f - i < length (kw # kws)" and "f - i = Suc (f - (i + 1))"
      by auto
    with Cons.prems(5) have "kws ! (f - (i + 1)) \<noteq> keyword (prev ! m)"
      by auto
    with key_m show "kws ! (f - (i + 1)) \<noteq> keyword (?rs ! m)"
      by simp
  qed
  from Cons.IH [of ?rs' ?rs "i + 1", OF len keys _ row other] Cons.prems(3)
  show ?case
    by (simp add: final_Cons length_replace_keyword)
qed

lemma handleCheck_final:
  "apiKey a \<noteq> [] \<Longrightarrow> cx a \<noteq> [] \<Longrightarrow>
     results (fst (handleCheck pf a))
       = final pf a 0 (keywordList a) (map loading_result (keywordList a))"
  by (simp add: handleCheck_results final_def)

lemma handleCheck_distinct:
  assumes "apiKey a \<noteq> []" and "cx a \<noteq> []"
    and "distinct (keywordList a)" and "n < length (keywordList a)"
  shows "results (fst (handleCheck pf a)) ! n = settle pf a n (keywordList a ! n)"
  using assms
    final_distinct [of "keywordList a" n n "map loading_result (keywordList a)" pf a 0]
  by (simp add: handleCheck_final loading_result_def)

lemma results_last_snapshot:
  assumes "apiKey a \<noteq> []" and "cx a \<noteq> []"
  shows "results (fst (handleCheck pf a))
       = snapshots (snd (handleCheck pf a)) ! length (keywordList a)"
proof -
  let ?init = "map loading_result (keywordList a)"
  let ?ss = "?init # states pf a 0 (keywordList a) ?init"
  have "last ?ss = ?ss ! (length ?ss - 1)"
    by (rule last_conv_nth) simp
  then show ?thesis
    using assms by (simp add: handleCheck_results handleCheck_snapshots length_states)
qed

lemma settle_throws:
  "fst (try_body pf a i kw) = Inl msg \<Longrightarrow> settle pf a i kw = error_result kw msg"
  by (simp add: settle_def)

text \<open>A rejected request and a non-success response make the \<open>try\<close> block throw.\<close>

lemma try_body_rejected:
  "encodeURIComponent pf kw = Inr q \<Longrightarrow> fetch pf i (search_url a q) = Rejected msg \<Longrightarrow>
     fst (try_body pf a i kw) = Inl msg"
  by (simp add: try_body_def Let_def)

lemma try_body_not_ok:
  "encodeURIComponent pf kw = Inr q \<Longrightarrow> fetch pf i (search_url a q) = NotOk st body \<Longrightarrow>
     \<exists>msg. fst (try_body pf a i kw) = Inl msg"
  by (simp add: try_body_def Let_def split: error_body.splits option.splits)

text \<open>
  C8, as the claim states it, fails for a list with a repeated keyword: in the run over
  \<open>[k, k]\<close> the first request succeeds and row 0 becomes matched, the second request
  gets a 403, and its update makes row 0 failed as well. Had the second request been
  answered otherwise, row 0 would have ended otherwise.
\<close>

lemma dup_results:
  "results (fst (handleCheck ex_pf dup_app))
     = [error_result ''k'' ''Daily Limit Exceeded'',
        error_result ''k'' ''Daily Limit Exceeded'']"
  by (simp add: run_eval dup_app_def)

lemma dup_results_answered:
  "results (fst (handleCheck (answer ex_pf 1 (\<lambda>url. IsOk (Data None))) dup_app))
     = [ng_result ''k'' [], ng_result ''k'' []]"
  by (simp add: run_eval dup_app_def answer_def)

theorem failure_rewrites_duplicate_counterexample:
  "apiKey dup_app \<noteq> [] \<and> cx dup_app \<noteq> []
   \<and> keywordList dup_app = [''k'', ''k'']
   \<and> fst (try_body ex_pf dup_app 0 ''k'')
       = Inr (found_result ''k'' 1 ''qa.co'' [item ''https://a.com/'', item ''https://qa.co/q/1''])
   \<and> fst (try_body ex_pf dup_app 1 ''k'') = Inl ''Daily Limit Exceeded''
   \<and> snapshots (snd (handleCheck ex_pf dup_app)) ! 1 ! 0
       = found_result ''k'' 1 ''qa.co'' [item ''https://a.com/'', item ''https://qa.co/q/1'']
   \<and> status (snapshots (snd (handleCheck ex_pf dup_app)) ! 1 ! 0) = Ok
   \<and> results (fst (handleCheck ex_pf dup_app)) ! 0
       = error_result ''k'' ''Daily Limit Exceeded''
   \<and> status (results (fst (handleCheck ex_pf dup_app)) ! 0) = Error
   \<and> (0::nat) \<noteq> 1
   \<and> results (fst (handleCheck (answer ex_pf 1 (\<lambda>url. IsOk (Data None))) dup_app)) ! 0
       \<noteq> results (fst (handleCheck ex_pf dup_app)) ! 0"
  unfolding dup_run dup_results dup_results_answered
  by (simp add: dup_app_def try_body_def ex_pf_def Let_def classify_def find_from_unfold
      ex_eval found_result_def ng_result_def error_result_def)

lemma failure_rows:
  fixes pf :: platform and a :: app
  defines "ss \<equiv> snapshots (snd (handleCheck pf a))" and "kws \<equiv> keywordList a"
    and "rs \<equiv> results (fst (handleCheck pf a))"
  assumes "apiKey a \<noteq> []" and "cx a \<noteq> []"
  shows "length ss = length kws + 1 \<and> length rs = length kws
    \<and> (\<forall>n<length kws. keyword (rs ! n) = kws ! n \<and> terminal (status (rs ! n)))
    \<and> (\<forall>f msg n. f < length kws \<and> n < length kws
          \<and> fst (try_body pf a f (kws ! f)) = Inl msg \<longrightarrow>
          ss ! (f + 1) ! n
            = (if kws ! n = kws ! f then error_result (kws ! f) msg else ss ! f ! n))
    \<and> (\<forall>f msg. f < length kws \<and> fst (try_body pf a f (kws ! f)) = Inl msg
          \<and> (\<forall>m. f < m \<and> m < length kws \<longrightarrow> kws ! m \<noteq> kws ! f) \<longrightarrow>
          rs ! f = error_result (kws ! f) msg)
    \<and> (\<forall>f g n. f < length kws \<and> n < length kws \<and> kws ! n \<noteq> kws ! f \<longrightarrow>
          results (fst (handleCheck (answer pf f g) a)) ! n = rs ! n)"
proof (intro conjI allI impI)
  let ?init = "map loading_result kws"
  note creds = assms(4,5)
  have fin: "rs = final pf a 0 kws ?init"
    unfolding rs_def kws_def using creds by (rule handleCheck_final)
  show len: "length ss = length kws + 1"
    unfolding ss_def kws_def using creds by (rule length_snapshots)
  show "length rs = length kws"
    by (simp add: fin length_final)
  show "keyword (rs ! n) = kws ! n" if "n < length kws" for n
    using that by (simp add: fin final_keyword loading_result_def)
  show "terminal (status (rs ! n))" if "n < length kws" for n
    using that final_terminal [of n ?init kws pf a 0]
    by (simp add: fin loading_result_def)
  have failed: "ss ! (f + 1) ! n
      = (if kws ! n = kws ! f then error_result (kws ! f) msg else ss ! f ! n)"
    if "f < length kws" and "n < length kws" and "fst (try_body pf a f (kws ! f)) = Inl msg"
    for f msg n
  proof -
    from that(1) len have "f + 1 < length (snapshots (snd (handleCheck pf a)))"
      unfolding ss_def by simp
    from snapshot_step [OF this, of n] that(2,3) show ?thesis
      unfolding ss_def kws_def by (simp add: settle_throws)
  qed
  then show "ss ! (f + 1) ! n
      = (if kws ! n = kws ! f then error_result (kws ! f) msg else ss ! f ! n)"
    if "f < length kws \<and> n < length kws \<and> fst (try_body pf a f (kws ! f)) = Inl msg"
    for f msg n
    using that by blast
  show "rs ! f = error_result (kws ! f) msg"
    if h: "f < length kws \<and> fst (try_body pf a f (kws ! f)) = Inl msg
          \<and> (\<forall>m. f < m \<and> m < length kws \<longrightarrow> kws ! m \<noteq> kws ! f)" for f msg
  proof -
    have "rs = ss ! length kws"
      unfolding rs_def ss_def kws_def using creds by (rule results_last_snapshot)
    moreover have "ss ! length kws ! f = ss ! (f + 1) ! f"
      unfolding ss_def kws_def
    proof (rule snapshot_frame)
      show "f + 1 \<le> length (keywordList a)"
        using h unfolding kws_def by simp
      show "length (keywordList a) < length (snapshots (snd (handleCheck pf a)))"
        using len unfolding ss_def kws_def by simp
      show "f < length (keywordList a)"
        using h unfolding kws_def by simp
      show "\<forall>m. f + 1 \<le> m \<and> m < length (keywordList a)
          \<longrightarrow> keywordList a ! m \<noteq> keywordList a ! f"
        using h unfolding kws_def by simp
    qed
    moreover from failed [of f f msg] h have "ss ! (f + 1) ! f = error_result (kws ! f) msg"
      by simp
    ultimately show ?thesis
      by simp
  qed
  show "results (fst (handleCheck (answer pf f g) a)) ! n = rs ! n"
    if "f < length kws \<and> n < length kws \<and> kws ! n \<noteq> kws ! f" for f g n
  proof -
    have "results (fst (handleCheck (answer pf f g) a)) = final (answer pf f g) a 0 kws ?init"
      unfolding kws_def using creds by (rule handleCheck_final)
    moreover have "final (answer pf f g) a 0 kws ?init ! n = final pf a 0 kws ?init ! n"
      using that by (intro final_answer) (auto simp: loading_result_def)
    ultimately show ?thesis
      by (simp add: fin)
  qed
qed

text \<open>
  C8, amended. With both credentials present, whatever the answers to the requests: the
  run makes one update per keyword after the initial one, and ends with one row per
  keyword, each carrying its keyword and a terminal status. When the \<open>try\<close> block of
  iteration \<open>f\<close> throws, its update makes failed, with the exception's message, the rows
  that carry the text of keyword \<open>f\<close> and leaves every other row as it was; row \<open>f\<close>
  ends failed with that message when its text does not occur again later in the list.
  Replacing the answer to the request of iteration \<open>f\<close> changes no final row of a
  keyword with another text.
\<close>

theorem failure_isolated:
  fixes pf :: platform and a :: app
  defines "ss \<equiv> snapshots (snd (handleCheck pf a))" and "kws \<equiv> keywordList a"
    and "rs \<equiv> results (fst (handleCheck pf a))"
  assumes "apiKey a \<noteq> []" and "cx a \<noteq> []"
  shows "length ss = length kws + 1 \<and> length rs = length kws
    \<and> (\<forall>n<length kws. keyword (rs ! n) = kws ! n
          \<and> (status (rs ! n) = Ok \<or> status (rs ! n) = Ng \<or> status (rs ! n) = Error))
    \<and> (\<forall>f msg n. f < length kws \<and> n < length kws
          \<and> fst (try_body pf a f (kws ! f)) = Inl msg \<longrightarrow>
          ss ! (f + 1) ! n
            = (if kws ! n = kws ! f
               then \<lparr>keyword = kws ! f, status = Error, rank = None, domain = None,
                      serp = None, error = Some msg\<rparr>
               else ss ! f ! n))
    \<and> (\<forall>f msg. f < length kws \<and> fst (try_body pf a f (kws ! f)) = Inl msg
          \<and> (\<forall>m. f < m \<and> m < length kws \<longrightarrow> kws ! m \<noteq> kws ! f) \<longrightarrow>
          rs ! f = \<lparr>keyword = kws ! f, status = Error, rank = None, domain = None,
                     serp = None, error = Some msg\<rparr>)
    \<and> (\<forall>f g n. f < length kws \<and> n < length kws \<and> kws ! n \<noteq> kws ! f \<longrightarrow>
          results (fst (handleCheck (answer pf f g) a)) ! n = rs ! n)"
  using failure_rows [OF assms(4,5), of pf]
  unfolding ss_def kws_def rs_def error_result_def terminal_def .

lemma ex_results:
  "results (fst (handleCheck ex_pf ex_app))
     = [found_result ''k1'' 1 ''qa.co'' [item ''https://a.com/'', item ''https://qa.co/q/1''],
        error_result ''k2'' ''Daily Limit Exceeded'',
        ng_result ''k3'' [item ''https://a.com/'', item ''https://b.com/'']]"
  by (simp add: run_eval)

lemma ex_failure:
  "fst (try_body ex_pf ex_app 1 (keywordList ex_app ! 1)) = Inl ''Daily Limit Exceeded''"
  by (simp add: try_body_def ex_pf_def Let_def)

theorem failure_isolated_witness:
  "apiKey ex_app \<noteq> [] \<and> cx ex_app \<noteq> []
   \<and> keywordList ex_app = [''k1'', ''k2'', ''k3'']
   \<and> fetch ex_pf 1 (ex_url ''k2'') = NotOk 403 (ErrorMessage (Some ''Daily Limit Exceeded''))
   \<and> fst (try_body ex_pf ex_app 1 (keywordList ex_app ! 1)) = Inl ''Daily Limit Exceeded''
   \<and> results (fst (handleCheck ex_pf ex_app)) ! 1
       = \<lparr>keyword = keywordList ex_app ! 1, status = Error, rank = None, domain = None,
          serp = None, error = Some ''Daily Limit Exceeded''\<rparr>
   \<and> status (results (fst (handleCheck ex_pf ex_app)) ! 0) = Ok
   \<and> status (results (fst (handleCheck ex_pf ex_app)) ! 2) = Ng
   \<and> results (fst (handleCheck ex_pf ex_app))
       = [found_result ''k1'' 1 ''qa.co'' [item ''https://a.com/'', item ''https://qa.co/q/1''],
          error_result ''k2'' ''Daily Limit Exceeded'',
          ng_result ''k3'' [item ''https://a.com/'', item ''https://b.com/'']]
   \<and> length (snapshots (snd (handleCheck ex_pf ex_app))) = length (keywordList ex_app) + 1
   \<and> results (fst (handleCheck (answer ex_pf 1 (\<lambda>url. IsOk (Data None))) ex_app)) ! 0
       = results (fst (handleCheck ex_pf ex_app)) ! 0
   \<and> results (fst (handleCheck (answer ex_pf 1 (\<lambda>url. IsOk (Data None))) ex_app)) ! 2
       = results (fst (handleCheck ex_pf ex_app)) ! 2"
proof -
  let ?kws = "keywordList ex_app"
  have key: "apiKey ex_app \<noteq> []" and cx: "cx ex_app \<noteq> []"
    by (simp_all add: ex_app_def)
  have kws: "?kws = [''k1'', ''k2'', ''k3'']"
    by (simp add: ex_app_def)
  note T = failure_isolated [OF key cx, of ex_pf]
  have answer: "fetch ex_pf 1 (ex_url ''k2'') = NotOk 403 (ErrorMessage (Some ''Daily Limit Exceeded''))"
    by (simp add: ex_pf_def)
  note throws = ex_failure
  have last: "1 < length ?kws \<and> fst (try_body ex_pf ex_app 1 (?kws ! 1)) = Inl ''Daily Limit Exceeded''
      \<and> (\<forall>m. 1 < m \<and> m < length ?kws \<longrightarrow> ?kws ! m \<noteq> ?kws ! 1)"
  proof (intro conjI allI impI)
    show "1 < length ?kws"
      by (simp add: kws)
    show "fst (try_body ex_pf ex_app 1 (?kws ! 1)) = Inl ''Daily Limit Exceeded''"
      by (rule throws)
    fix m
    assume "1 < m \<and> m < length ?kws"
    then have "m = 2"
      by (simp add: kws)
    then show "?kws ! m \<noteq> ?kws ! 1"
      by (simp add: kws)
  qed
  from T [THEN conjunct2, THEN conjunct2, THEN conjunct2, THEN conjunct2, THEN conjunct1,
      rule_format, OF last]
  have failed: "results (fst (handleCheck ex_pf ex_app)) ! 1
      = \<lparr>keyword = ?kws ! 1, status = Error, rank = None, domain = None,
         serp = None, error = Some ''Daily Limit Exceeded''\<rparr>" .
  have matched: "status (results (fst (handleCheck ex_pf ex_app)) ! 0) = Ok"
    and not_matched: "status (results (fst (handleCheck ex_pf ex_app)) ! 2) = Ng"
    unfolding ex_results by (simp_all add: found_result_def ng_result_def)
  from T have len: "length (snapshots (snd (handleCheck ex_pf ex_app))) = length ?kws + 1"
    by (rule conjunct1)
  note iso = T [THEN conjunct2, THEN conjunct2, THEN conjunct2, THEN conjunct2, THEN conjunct2,
      rule_format]
  have zero: "1 < length ?kws \<and> 0 < length ?kws \<and> ?kws ! 0 \<noteq> ?kws ! 1"
    and two: "1 < length ?kws \<and> 2 < length ?kws \<and> ?kws ! 2 \<noteq> ?kws ! 1"
    by (simp_all add: kws)
  from iso [OF zero]
  have r0: "results (fst (handleCheck (answer ex_pf 1 (\<lambda>url. IsOk (Data None))) ex_app)) ! 0
       = results (fst (handleCheck ex_pf ex_app)) ! 0" .
  from iso [OF two]
  have r2: "results (fst (handleCheck (answer ex_pf 1 (\<lambda>url. IsOk (Data None))) ex_app)) ! 2
       = results (fst (handleCheck ex_pf ex_app)) ! 2" .
  from key cx kws answer throws failed matched not_matched ex_results len r0 r2 show ?thesis
    by (intro conjI)
qed

section \<open>Non-success responses\<close>

text \<open>
  What the row of a keyword becomes on a non-success response: failed, with the
  exception's message when reading the body throws, with the body's message when it
  has a non-empty one, and with the generic message otherwise.
\<close>

lemma settle_not_ok:
  "encodeURIComponent pf kw = Inr q \<Longrightarrow> fetch pf i (search_url a q) = NotOk st body \<Longrightarrow>
     settle pf a i kw
       = error_result kw
           (case body of
              JsonThrows msg \<Rightarrow> msg
            | MemberThrows msg \<Rightarrow> msg
            | ErrorMessage None \<Rightarrow> http_error st
            | ErrorMessage (Some m) \<Rightarrow> if m \<noteq> [] then m else http_error st)"
  by (simp add: settle_def try_body_def Let_def split: error_body.splits option.splits)

text \<open>
  C4. The run of the example against the platform of non-success responses: every row
  is failed, but only the third carries the generic message with the status code. The
  first two carry the message of the exception thrown while the body was read, since
  lines 110 and 111 throw before the fallback of line 111 is reached.
\<close>

theorem error_body_without_message:
  "results (fst (handleCheck bad_pf ex_app))
     = [error_result ''k1''
          ''JSON.parse: unexpected character at line 1 column 1 of the JSON data'',
        error_result ''k2''
          (''Cannot read properties of undefined (reading '' @ [CHR 0x27] @ ''message''
             @ [CHR 0x27] @ '')''),
        error_result ''k3'' ''HTTP error! status: 403'']"
  by (simp add: run_eval bad_pf_def http_error_def)

section \<open>CSV export\<close>

text \<open>Every row a run writes is blank unless matched.\<close>

lemma states_blank:
  "\<forall>r\<in>set prev. blank_unless_ok r \<Longrightarrow>
     \<forall>s\<in>set (states pf a i kws prev). \<forall>r\<in>set s. blank_unless_ok r"
proof (induction kws arbitrary: i prev)
  case Nil
  then show ?case by simp
next
  case (Cons kw kws)
  let ?rs = "replace_keyword kw (settle pf a i kw) prev"
  from Cons.prems settle_blank [of pf a i kw]
  have step: "\<forall>r\<in>set ?rs. blank_unless_ok r"
    by (auto simp: replace_keyword_def blank_unless_ok_def)
  with Cons.IH [of ?rs "i + 1"] show ?case
    by simp
qed

lemma snapshots_blank:
  "rs \<in> set (snapshots (snd (handleCheck pf a))) \<Longrightarrow> r \<in> set rs \<Longrightarrow> blank_unless_ok r"
proof (cases "apiKey a = [] \<or> cx a = []")
  case True
  assume "rs \<in> set (snapshots (snd (handleCheck pf a)))"
  with True show ?thesis
    by (simp add: handleCheck_def)
next
  case False
  let ?init = "map loading_result (keywordList a)"
  assume rs: "rs \<in> set (snapshots (snd (handleCheck pf a)))" and r: "r \<in> set rs"
  have init: "\<forall>r\<in>set ?init. blank_unless_ok r"
    by (auto simp: loading_result_def blank_unless_ok_def)
  from rs False have "rs = ?init \<or> rs \<in> set (states pf a 0 (keywordList a) ?init)"
    by (simp add: handleCheck_snapshots)
  with init states_blank [OF init, of pf a 0 "keywordList a"] r show ?thesis
    by blast
qed

text \<open>
  C9. The exported text is the header line followed by one line per row. A line is the
  keyword between double quotes, one of two labels (the first for a matched row, the
  second for every other status), the rank and the domain. A row that is not matched
  and carries neither rank nor domain ends in two empty fields, and so does every row
  that is not matched in every value of \<open>results\<close> a run writes. The export button does
  nothing while a row is loading.
\<close>

theorem exportToCSV_format:
  "csv_lines rs = ''Keyword,Status,Rank,Domain'' # map csv_row rs
   \<and> csvContent rs = ''data:text/csv;charset=utf-8,'' @ join [CHR 0x0A] (csv_lines rs)
   \<and> (\<forall>r\<in>set rs.
         csv_row r = [CHR 0x22] @ keyword r @ [CHR 0x22] @ '',''
                       @ (if status r = Ok then label_ok else label_ng) @ '',''
                       @ (case rank r of Some n \<Rightarrow> show_nat n | None \<Rightarrow> []) @ '',''
                       @ (case domain r of Some d \<Rightarrow> d | None \<Rightarrow> []))
   \<and> (\<forall>r\<in>set rs. status r \<noteq> Ok \<and> rank r = None \<and> domain r = None \<longrightarrow>
         csv_row r = [CHR 0x22] @ keyword r @ [CHR 0x22] @ '','' @ label_ng @ '',,'')
   \<and> (\<forall>written\<in>set (snapshots (snd (handleCheck pf a))). \<forall>r\<in>set written.
         status r \<noteq> Ok \<longrightarrow>
         csv_row r = [CHR 0x22] @ keyword r @ [CHR 0x22] @ '','' @ label_ng @ '',,'')
   \<and> label_ok \<noteq> label_ng
   \<and> ((\<exists>r\<in>set rs. status r = Loading) \<longrightarrow> click_export rs = None)"
proof -
  have row: "csv_row r = [CHR 0x22] @ keyword r @ [CHR 0x22] @ '','' @ label_ng @ '',,''"
    if "status r \<noteq> Ok" and "rank r = None \<and> domain r = None" for r
    using that by (simp add: csv_row_def)
  have written: "csv_row r = [CHR 0x22] @ keyword r @ [CHR 0x22] @ '','' @ label_ng @ '',,''"
    if "written \<in> set (snapshots (snd (handleCheck pf a)))" and "r \<in> set written"
      and "status r \<noteq> Ok" for written r
    using snapshots_blank [OF that(1,2)] that(3) row [of r]
    by (simp add: blank_unless_ok_def)
  have "label_ok \<noteq> label_ng"
    by (simp add: label_ok_def label_ng_def)
  moreover have "click_export rs = None" if "\<exists>r\<in>set rs. status r = Loading"
    using that by (simp add: click_export_def export_disabled_def list_ex_iff)
  moreover have "csv_lines rs = ''Keyword,Status,Rank,Domain'' # map csv_row rs"
    by (simp add: csv_lines_def)
  moreover have "\<forall>r\<in>set rs.
         csv_row r = [CHR 0x22] @ keyword r @ [CHR 0x22] @ '',''
                       @ (if status r = Ok then label_ok else label_ng) @ '',''
                       @ (case rank r of Some n \<Rightarrow> show_nat n | None \<Rightarrow> []) @ '',''
                       @ (case domain r of Some d \<Rightarrow> d | None \<Rightarrow> [])"
    by (simp add: csv_row_def)
  ultimately show ?thesis
    using row written by (simp add: csvContent_def)
qed

theorem exportToCSV_format_witness:
  "csvContent (results (fst (handleCheck ex_pf ex_app)))
     = ''data:text/csv;charset=utf-8,Keyword,Status,Rank,Domain'' @ [CHR 0x0A]
       @ [CHR 0x22] @ ''k1'' @ [CHR 0x22] @ '','' @ label_ok @ '',2,qa.co'' @ [CHR 0x0A]
       @ [CHR 0x22] @ ''k2'' @ [CHR 0x22] @ '','' @ label_ng @ '',,'' @ [CHR 0x0A]
       @ [CHR 0x22] @ ''k3'' @ [CHR 0x22] @ '','' @ label_ng @ '',,''
   \<and> click_export [ng_result ''k2'' [], loading_result ''k3''] = None"
proof -
  let ?rs = "results (fst (handleCheck ex_pf ex_app))"
  note T = exportToCSV_format [of ?rs ex_pf ex_app]
  note L = exportToCSV_format [of "[ng_result ''k2'' [], loading_result ''k3'']" ex_pf ex_app]
  have "csvContent ?rs = ''data:text/csv;charset=utf-8,'' @ join [CHR 0x0A] (csv_lines ?rs)"
    and "csv_lines ?rs = ''Keyword,Status,Rank,Domain'' # map csv_row ?rs"
    using T by simp_all
  then have "csvContent ?rs
     = ''data:text/csv;charset=utf-8,'' @ join [CHR 0x0A]
         (''Keyword,Status,Rank,Domain'' # map csv_row ?rs)"
    by simp
  moreover have "click_export [ng_result ''k2'' [], loading_result ''k3''] = None"
    using L by (simp add: loading_result_def)
  ultimately show ?thesis
    by (simp add: ex_results csv_row_def found_result_def ng_result_def error_result_def
        show_nat.simps digit_def)
qed

end
